theory Spec2Isabelle
  imports Complex_Main "HOL-Library.Sublist"
begin

section \<open>Values crossing the boundary of \<open>BaseLanguageModel\<close>\<close>

text \<open>
  A JavaScript \<open>Error\<close> is kept as its message. A JavaScript number is a real number or
  \<open>NaN\<close>; the only operation the class applies to numbers is the truthiness test of
  \<open>||\<close>, under which \<open>0\<close> and \<open>NaN\<close> are falsy. The infinities, which are truthy
  as every real number other than \<open>0\<close> is, are left out.
\<close>

datatype error = Error string

datatype number = Num real | NaN

fun truthy :: "number \<Rightarrow> bool" where
  "truthy (Num r) = (r \<noteq> 0)"
| "truthy NaN = False"

text \<open>\<open>x || d\<close> for an optional number \<open>x\<close> (\<open>undefined\<close> is \<open>None\<close>).\<close>

fun orDefault :: "number option \<Rightarrow> number \<Rightarrow> number" where
  "orDefault None d = d"
| "orDefault (Some x) d = (if truthy x then x else d)"

datatype ChatMessageRole = System | User | Assistant | Function | UnknownRole

datatype role = RSystem | RUser | RAssistant | RTool

record IChatMessage =
  msg_role :: ChatMessageRole
  msg_content :: string

record CoreMessage =
  role :: role
  content :: string

record 'v ToolRequest =
  tr_name :: string
  tr_description :: "string option"
  tr_parameters :: 'v
  tr_handler :: "string \<Rightarrow> 'v"

record 'v AITool =
  description :: string
  parameters :: 'v
  execute :: "'v \<Rightarrow> 'v"

record 'v IAIBackServiceOption =
  clientId :: "string option"
  noTool :: bool
  history :: "IChatMessage list option"
  modelId :: "string option"
  temperature :: "number option"
  topP :: "number option"
  topK :: "number option"
  providerOptions :: "'v option"
  trimTexts :: "(string \<times> string) option"

text \<open>
  The chunks of \<open>stream.fullStream\<close>, with the fields the loop reads:
  \<open>text-delta\<close> (\<open>textDelta\<close>), \<open>tool-call\<close> (\<open>toolCallId\<close>, \<open>toolName\<close>, \<open>args\<close>),
  \<open>tool-call-streaming-start\<close> (\<open>toolCallId\<close>, \<open>toolName\<close>), \<open>tool-call-delta\<close>
  (\<open>toolCallId\<close>, \<open>toolName\<close>, \<open>argsTextDelta\<close>), \<open>tool-result\<close> (\<open>toolCallId\<close>,
  \<open>toolName\<close>, \<open>args\<close>, \<open>result\<close>) and \<open>error\<close> (\<open>error\<close>). \<open>OtherChunk\<close> stands for
  every chunk type that no branch of the loop matches. A missing \<open>toolCallId\<close> is the
  empty string, which is falsy as \<open>undefined\<close> is.
\<close>

datatype 'v chunk =
    TextDelta string
  | ToolCallChunk string string 'v
  | ToolCallStreamingStart string string
  | ToolCallDelta string string string
  | ToolResult string string 'v 'v
  | ErrorChunk string
  | OtherChunk

datatype tool_state = Complete | StreamingStart | Streaming | Result

text \<open>
  The data of \<open>emitData\<close>: \<open>content\<close> with its text, or \<open>toolCall\<close> with \<open>id\<close>,
  \<open>function.name\<close>, \<open>function.arguments\<close>, \<open>result\<close> and \<open>state\<close> (its \<open>type\<close> is
  always \<open>function\<close>).
\<close>

datatype 'v chat_data =
    Content string
  | ToolCall string string "string option" "'v option" tool_state

text \<open>The calls made on the \<open>ChatReadableStream\<close>, in the order they are made.\<close>

datatype 'v sink_call = EmitData "'v chat_data" | EmitError error | End

text \<open>The argument object of \<open>streamText\<close>. The abort signal is left out: it only links
  the cancellation token to the provider, whose answer is a parameter here.\<close>

record ('m, 'v) stream_args =
  model :: 'm
  maxTokens :: nat
  tools :: "string \<rightharpoonup> 'v AITool"
  messages :: "CoreMessage list"
  toolCallStreaming :: bool
  maxSteps :: nat
  arg_temperature :: "number option"
  arg_topP :: number
  arg_topK :: number
  arg_providerOptions :: "'v option"

text \<open>
  What the class takes from outside: the two abstract methods, the tool registry, the
  \<open>ai\<close> package's \<open>streamText\<close>, \<open>JSON.stringify\<close> and the clock. \<open>streamText\<close>
  answers with a fault raised before the first chunk (\<open>Inl\<close>), or with the chunks it
  yields and the fault that ends the iteration, if any. \<open>now i\<close> is
  \<open>Date.now().toString()\<close> while chunk number \<open>i\<close> is handled. \<open>getModelIdentifier\<close>
  and \<open>JSON.stringify\<close> are taken to return, the latter a string.
\<close>

record ('p, 'm, 'v) env =
  initializeProvider :: "'v IAIBackServiceOption \<Rightarrow> error + 'p"
  getModelIdentifier :: "'p \<Rightarrow> string option \<Rightarrow> 'm"
  getAllFunctions :: "string \<Rightarrow> 'v ToolRequest list"
  streamText :: "('m, 'v) stream_args \<Rightarrow> error + ('v chunk list \<times> error option)"
  stringify :: "'v \<Rightarrow> string"
  now :: "nat \<Rightarrow> string"

section \<open>String operations of JavaScript\<close>

abbreviation newline :: char where
  "newline \<equiv> CHR 0x0A"

text \<open>\<open>s.indexOf(p)\<close>, with \<open>None\<close> for \<open>-1\<close>; \<open>s.includes(p)\<close>.\<close>

fun indexOf :: "string \<Rightarrow> string \<Rightarrow> nat option" where
  "indexOf [] p = (if p = [] then Some 0 else None)"
| "indexOf (c # cs) p =
     (if prefix p (c # cs) then Some 0 else map_option Suc (indexOf cs p))"

definition js_includes :: "string \<Rightarrow> string \<Rightarrow> bool" where
  "js_includes s p = (indexOf s p \<noteq> None)"

text \<open>\<open>s.split('\n')\<close>: never empty, \<open>''.split('\n')\<close> is \<open>['']\<close>.\<close>

fun js_split :: "string \<Rightarrow> string list" where
  "js_split [] = [] # []"
| "js_split (c # cs) =
     (if c = newline then [] # js_split cs
      else (case js_split cs of [] \<Rightarrow> [c] # [] | l # ls \<Rightarrow> (c # l) # ls))"

section \<open>The chunk dispatcher and the trim filter\<close>

record 'v state =
  isFirstChunk :: bool
  bufferedText :: string
  pendingLines :: "string list"
  sink :: "'v sink_call list"

definition initial :: "'v state" where
  "initial = \<lparr>isFirstChunk = True, bufferedText = [], pendingLines = [], sink = []\<rparr>"

definition emitData :: "'v chat_data \<Rightarrow> 'v state \<Rightarrow> 'v state" where
  "emitData d st = st\<lparr>sink := sink st @ [EmitData d]\<rparr>"

definition emitError :: "error \<Rightarrow> 'v state \<Rightarrow> 'v state" where
  "emitError e st = st\<lparr>sink := sink st @ [EmitError e]\<rparr>"

definition endStream :: "'v state \<Rightarrow> 'v state" where
  "endStream st = st\<lparr>sink := sink st @ [End]\<rparr>"

text \<open>\<open>while (pendingLines.length > 3) { emitData(pendingLines.shift() + '\n') }\<close>\<close>

function sendLines :: "'v state \<Rightarrow> 'v state" where
  "sendLines st =
     (if length (pendingLines st) > 3
      then sendLines (emitData (Content (hd (pendingLines st) @ [newline]))
                        (st\<lparr>pendingLines := tl (pendingLines st)\<rparr>))
      else st)"
  by pat_completeness auto
termination
  by (relation "measure (\<lambda>st. length (pendingLines st))") (auto simp: emitData_def)

declare sendLines.simps [simp del]

text \<open>The \<open>text-delta\<close> branch when \<open>trimTexts\<close> is given.\<close>

definition stripPrefix :: "string \<Rightarrow> 'v state \<Rightarrow> 'v state" where
  "stripPrefix p st =
     (if isFirstChunk st \<and> js_includes (bufferedText st) p
      then (case indexOf (bufferedText st) p of
              None \<Rightarrow> st
            | Some i \<Rightarrow> st\<lparr>bufferedText := drop (i + length p) (bufferedText st),
                          isFirstChunk := False\<rparr>)
      else st)"

definition splitLines :: "'v state \<Rightarrow> 'v state" where
  "splitLines st =
     (let lines = js_split (bufferedText st)
      in st\<lparr>bufferedText := last lines,
            pendingLines := pendingLines st @ butlast lines\<rparr>)"

definition trimDelta :: "string \<Rightarrow> 'v state \<Rightarrow> string \<Rightarrow> 'v state" where
  "trimDelta p st d =
     sendLines (splitLines (stripPrefix p (st\<lparr>bufferedText := bufferedText st @ d\<rparr>)))"

text \<open>One iteration of the \<open>for await\<close> loop. \<open>t\<close> is the clock's reading.\<close>

fun handleChunk ::
  "('v \<Rightarrow> string) \<Rightarrow> string \<Rightarrow> (string \<times> string) option \<Rightarrow> 'v state \<Rightarrow> 'v chunk \<Rightarrow> 'v state"
where
  "handleChunk js t trim st (TextDelta d) =
     (case trim of
        Some (p, s) \<Rightarrow> trimDelta p st d
      | None \<Rightarrow> emitData (Content d) st)"
| "handleChunk js t trim st (ToolCallChunk cid nm args) =
     emitData (ToolCall (if cid \<noteq> [] then cid else t) nm (Some (js args)) None Complete) st"
| "handleChunk js t trim st (ToolCallStreamingStart cid nm) =
     emitData (ToolCall cid nm None None StreamingStart) st"
| "handleChunk js t trim st (ToolCallDelta cid nm delta) =
     emitData (ToolCall cid nm (Some delta) None Streaming) st"
| "handleChunk js t trim st (ToolResult cid nm args res) =
     emitData (ToolCall cid nm (Some (js args)) (Some res) Result) st"
| "handleChunk js t trim st (ErrorChunk msg) = emitError (Error msg) st"
| "handleChunk js t trim st OtherChunk = st"

text \<open>The loop over the chunks that the stream yields; \<open>i\<close> numbers the chunks.\<close>

fun forAwait ::
  "('v \<Rightarrow> string) \<Rightarrow> (nat \<Rightarrow> string) \<Rightarrow> (string \<times> string) option \<Rightarrow> nat \<Rightarrow>
   'v state \<Rightarrow> 'v chunk list \<Rightarrow> 'v state"
where
  "forAwait js clk trim i st [] = st"
| "forAwait js clk trim i st (c # cs) =
     forAwait js clk trim (Suc i) (handleChunk js (clk i) trim st c) cs"

text \<open>The block after the loop, entered when \<open>trimTexts[1]\<close> is a non-empty string.\<close>

fun sendRemaining :: "string list \<Rightarrow> 'v sink_call list" where
  "sendRemaining [] = []"
| "sendRemaining [l] = [EmitData (Content l)]"
| "sendRemaining (l # ls) = EmitData (Content (l @ [newline])) # sendRemaining ls"

definition removeSuffix :: "string \<Rightarrow> string list \<Rightarrow> string list" where
  "removeSuffix s pending =
     (if pending \<noteq> [] \<and> suffix s (last pending)
      then butlast pending @ [take (length (last pending) - length s) (last pending)]
      else pending)"

definition flushRemaining :: "(string \<times> string) option \<Rightarrow> 'v state \<Rightarrow> 'v state" where
  "flushRemaining trim st =
     (case trim of
        None \<Rightarrow> st
      | Some (p, s) \<Rightarrow>
          if s = [] then st
          else
            (let pending = removeSuffix s
                   (if bufferedText st \<noteq> [] then pendingLines st @ [bufferedText st]
                    else pendingLines st)
             in st\<lparr>pendingLines := pending, sink := sink st @ sendRemaining pending\<rparr>))"

section \<open>\<open>handleStreamingRequest\<close> and \<open>request\<close>\<close>

fun convertChatMessageRole :: "ChatMessageRole \<Rightarrow> role" where
  "convertChatMessageRole System = RSystem"
| "convertChatMessageRole User = RUser"
| "convertChatMessageRole Assistant = RAssistant"
| "convertChatMessageRole Function = RTool"
| "convertChatMessageRole UnknownRole = RUser"

definition convertToolRequestToAITool :: "('v \<Rightarrow> string) \<Rightarrow> 'v ToolRequest \<Rightarrow> 'v AITool" where
  "convertToolRequestToAITool js t =
     \<lparr>description = (case tr_description t of None \<Rightarrow> [] | Some d \<Rightarrow> d),
      parameters = tr_parameters t,
      execute = (\<lambda>args. tr_handler t (js args))\<rparr>"

text \<open>\<open>Object.fromEntries\<close>: a later entry replaces an earlier one of the same name.\<close>

fun fromEntries :: "(string \<times> 'a) list \<Rightarrow> (string \<rightharpoonup> 'a)" where
  "fromEntries [] = Map.empty"
| "fromEntries ((k, v) # es) = (\<lambda>x. case fromEntries es x of Some w \<Rightarrow> Some w
                                     | None \<Rightarrow> if x = k then Some v else None)"

definition aiTools :: "('v \<Rightarrow> string) \<Rightarrow> 'v ToolRequest list \<Rightarrow> (string \<rightharpoonup> 'v AITool)" where
  "aiTools js ts = fromEntries (map (\<lambda>t. (tr_name t, convertToolRequestToAITool js t)) ts)"

definition buildMessages :: "IChatMessage list \<Rightarrow> string \<Rightarrow> CoreMessage list" where
  "buildMessages hist request =
     map (\<lambda>m. \<lparr>role = convertChatMessageRole (msg_role m), content = msg_content m\<rparr>) hist
     @ [\<lparr>role = RUser, content = request\<rparr>]"

definition streamTextArgs ::
  "('p, 'm, 'v) env \<Rightarrow> 'p \<Rightarrow> string \<Rightarrow> 'v ToolRequest list \<Rightarrow> IChatMessage list \<Rightarrow>
   string option \<Rightarrow> number option \<Rightarrow> number option \<Rightarrow> number option \<Rightarrow> 'v option \<Rightarrow>
   ('m, 'v) stream_args"
where
  "streamTextArgs E provider request ts hist mid temp tp tk popts =
     \<lparr>model = getModelIdentifier E provider mid,
      maxTokens = 4096,
      tools = aiTools (stringify E) ts,
      messages = buildMessages hist request,
      toolCallStreaming = True,
      maxSteps = 12,
      arg_temperature = temp,
      arg_topP = orDefault tp (Num 0.8),
      arg_topK = orDefault tk (Num 1),
      arg_providerOptions = popts\<rparr>"

text \<open>
  The loop, the flush and \<open>end()\<close> of the \<open>try\<close> block, and the \<open>catch\<close> that turns
  a fault into \<open>emitError\<close>, as the list of calls made on the sink. A fault skips the
  rest of the \<open>try\<close> block, the flush and \<open>end()\<close> included.
\<close>

definition dispatch ::
  "('v \<Rightarrow> string) \<Rightarrow> (nat \<Rightarrow> string) \<Rightarrow> (string \<times> string) option \<Rightarrow>
   error + ('v chunk list \<times> error option) \<Rightarrow> 'v sink_call list"
where
  "dispatch js clk trim answer =
     (case answer of
        Inl e \<Rightarrow> sink (emitError e initial)
      | Inr (chunks, fault) \<Rightarrow>
          (let st = forAwait js clk trim 0 initial chunks
           in case fault of
                Some e \<Rightarrow> sink (emitError e st)
              | None \<Rightarrow> sink (endStream (flushRemaining trim st))))"

text \<open>What one call leaves behind: the calls of \<open>initializeProvider\<close> (with the options
  passed), the calls of \<open>streamText\<close> and the calls on the sink.\<close>

record ('m, 'v) outcome =
  initialize_calls :: "'v IAIBackServiceOption list"
  provider_calls :: "('m, 'v) stream_args list"
  sink_calls :: "'v sink_call list"

text \<open>\<open>handleStreamingRequest\<close> has no failing exit: it always returns the stream.\<close>

definition handleStreamingRequest ::
  "('p, 'm, 'v) env \<Rightarrow> 'p \<Rightarrow> string \<Rightarrow> 'v ToolRequest list \<Rightarrow> IChatMessage list \<Rightarrow>
   string option \<Rightarrow> number option \<Rightarrow> number option \<Rightarrow> number option \<Rightarrow> 'v option \<Rightarrow>
   (string \<times> string) option \<Rightarrow> ('m, 'v) outcome"
where
  "handleStreamingRequest E provider request ts hist mid temp tp tk popts trim =
     (let args = streamTextArgs E provider request ts hist mid temp tp tk popts
      in \<lparr>initialize_calls = [],
          provider_calls = [args],
          sink_calls = dispatch (stringify E) (now E) trim (streamText E args)\<rparr>)"

text \<open>
  \<open>request\<close>. The first component is the error of the rejected promise, if any; the
  second is what the call left behind. \<open>initializeProvider\<close> is called first, before the
  client identifier is tested, and may throw; \<open>!clientId\<close> holds for \<open>undefined\<close> and
  for the empty string. \<open>initialized opts\<close> is what a call leaves behind that ends after
  \<open>initializeProvider\<close>.
\<close>

definition initialized :: "'v IAIBackServiceOption \<Rightarrow> ('m, 'v) outcome" where
  "initialized opts = \<lparr>initialize_calls = [opts], provider_calls = [], sink_calls = []\<rparr>"

definition request ::
  "('p, 'm, 'v) env \<Rightarrow> string \<Rightarrow> 'v IAIBackServiceOption \<Rightarrow>
   error option \<times> ('m, 'v) outcome"
where
  "request E req opts =
     (case initializeProvider E opts of
        Inl e \<Rightarrow> (Some e, initialized opts)
      | Inr provider \<Rightarrow>
          (case clientId opts of
             None \<Rightarrow> (Some (Error ''clientId is required''), initialized opts)
           | Some cid \<Rightarrow>
               if cid = [] then (Some (Error ''clientId is required''), initialized opts)
               else
                 (let allFunctions = (if noTool opts then [] else getAllFunctions E cid)
                  in (None, (handleStreamingRequest E provider req allFunctions
                               (case history opts of None \<Rightarrow> [] | Some h \<Rightarrow> h)
                               (modelId opts) (temperature opts) (topP opts) (topK opts)
                               (providerOptions opts) (trimTexts opts))
                             \<lparr>initialize_calls := [opts]\<rparr>))))"

text \<open>The text of the \<open>content\<close> events among the calls on the sink, in order.\<close>

fun contents :: "'v sink_call list \<Rightarrow> string list" where
  "contents [] = []"
| "contents (EmitData (Content t) # cs) = t # contents cs"
| "contents (c # cs) = contents cs"

section \<open>A sample environment\<close>

text \<open>A concrete provider, registry and option object, used where a statement is
  evaluated on an explicit input.\<close>

definition sampleStringify :: "unit \<Rightarrow> string" where
  "sampleStringify v = ''null''"

definition sampleClock :: "nat \<Rightarrow> string" where
  "sampleClock i = ''0''"

definition sampleInitializeProvider :: "unit IAIBackServiceOption \<Rightarrow> error + unit" where
  "sampleInitializeProvider opts = Inr ()"

definition sampleModel :: "unit \<Rightarrow> string option \<Rightarrow> string" where
  "sampleModel provider mid = (case mid of None \<Rightarrow> ''default'' | Some m \<Rightarrow> m)"

definition sampleHandler :: "string \<Rightarrow> unit" where
  "sampleHandler args = ()"

definition sampleRegistry :: "string \<Rightarrow> unit ToolRequest list" where
  "sampleRegistry cid =
     [\<lparr>tr_name = ''search'', tr_description = Some ''find text'', tr_parameters = (),
       tr_handler = sampleHandler\<rparr>]"

definition sampleStreamText ::
  "(string, unit) stream_args \<Rightarrow> error + (unit chunk list \<times> error option)" where
  "sampleStreamText args = Inr ([TextDelta ''Hi''], None)"

definition sampleEnv :: "(unit, string, unit) env" where
  "sampleEnv = \<lparr>initializeProvider = sampleInitializeProvider,
                getModelIdentifier = sampleModel,
                getAllFunctions = sampleRegistry,
                streamText = sampleStreamText,
                stringify = sampleStringify,
                now = sampleClock\<rparr>"

definition sampleOptions :: "unit IAIBackServiceOption" where
  "sampleOptions = \<lparr>clientId = Some ''client-1'', noTool = True, history = None,
                    modelId = None, temperature = None, topP = Some (Num 0), topK = None,
                    providerOptions = None, trimTexts = None\<rparr>"

text \<open>The same environment with an \<open>initializeProvider\<close> that throws.\<close>

definition failingInitializeProvider :: "unit IAIBackServiceOption \<Rightarrow> error + unit" where
  "failingInitializeProvider opts = Inl (Error ''apiKey is required'')"

definition failingEnv :: "(unit, string, unit) env" where
  "failingEnv = sampleEnv\<lparr>initializeProvider := failingInitializeProvider\<rparr>"

section \<open>Observations on the calls made on the sink\<close>

text \<open>\<open>others\<close> keeps every call that is not a \<open>content\<close> event: the tool-call
  events, the error events and \<open>end()\<close>.\<close>

fun is_content :: "'v sink_call \<Rightarrow> bool" where
  "is_content (EmitData (Content t)) = True"
| "is_content c = False"

definition others :: "'v sink_call list \<Rightarrow> 'v sink_call list" where
  "others cs = filter (\<lambda>c. \<not> is_content c) cs"

fun is_error :: "'v sink_call \<Rightarrow> bool" where
  "is_error (EmitError e) = True"
| "is_error c = False"

fun is_error_chunk :: "'v chunk \<Rightarrow> bool" where
  "is_error_chunk (ErrorChunk m) = True"
| "is_error_chunk c = False"

text \<open>The chunks of type \<open>text-delta\<close>.\<close>

fun is_text_delta :: "'v chunk \<Rightarrow> bool" where
  "is_text_delta (TextDelta d) = True"
| "is_text_delta c = False"

text \<open>A completed line: some text without a line break, followed by one line break.\<close>

definition completed_line :: "string \<Rightarrow> bool" where
  "completed_line t = (t \<noteq> [] \<and> last t = newline \<and> newline \<notin> set (butlast t))"

section \<open>Notions used in the proofs\<close>

text \<open>The events of the \<open>while\<close> loop for a list of lines, the pending lines just
  before that loop, and the invariant that pending lines hold no line break and every
  content event sent so far is a completed line.\<close>

definition lineEvents :: "string list \<Rightarrow> 'v sink_call list" where
  "lineEvents ls = map (\<lambda>l. EmitData (Content (l @ [newline]))) ls"

definition pend :: "string \<Rightarrow> 'v state \<Rightarrow> string \<Rightarrow> string list" where
  "pend p st d =
     pendingLines (splitLines (stripPrefix p (st\<lparr>bufferedText := bufferedText st @ d\<rparr>)))"

definition lines_ok :: "'v state \<Rightarrow> bool" where
  "lines_ok st = ((\<forall>l \<in> set (pendingLines st). newline \<notin> set l) \<and>
                  (\<forall>t \<in> set (contents (sink st)). completed_line t))"

text \<open>The states of the trim filter before and after the prefix has been found, when
  nothing has been sent yet; \<open>reached t\<close> is the state after the text \<open>t\<close> of the sample
  \<open>P:hello\<newline>world:E\<close> has arrived; \<open>fed ls\<close> describes the state after the lines
  \<open>ls\<close> have arrived one per delta.\<close>

definition before_prefix :: "string \<Rightarrow> 'v state" where
  "before_prefix b = \<lparr>isFirstChunk = True, bufferedText = b, pendingLines = [], sink = []\<rparr>"

definition after_prefix :: "string \<Rightarrow> 'v state" where
  "after_prefix r = \<lparr>isFirstChunk = False, bufferedText = last (js_split r),
                      pendingLines = butlast (js_split r), sink = []\<rparr>"

abbreviation sample :: string where
  "sample \<equiv> ''P:hello\<newline>world:E''"

definition reached :: "string \<Rightarrow> 'v state" where
  "reached t = (if length t < 2 then before_prefix t else after_prefix (drop 2 t))"

definition fed :: "string list \<Rightarrow> 'v state \<Rightarrow> bool" where
  "fed ls st = (bufferedText st = [] \<and> pendingLines st = drop (length ls - 3) ls \<and>
                sink st = lineEvents (take (length ls - 3) ls))"

section \<open>Lemmas\<close>

lemma js_split_nonempty: "js_split s \<noteq> []"
  by (induction s) (auto split: list.splits)

lemma js_split_no_newline: "l \<in> set (js_split s) \<Longrightarrow> newline \<notin> set l"
  by (induction s arbitrary: l) (auto split: list.splits if_splits)

lemma js_split_plain: "newline \<notin> set s \<Longrightarrow> js_split s = [s]"
  by (induction s) auto

lemma js_split_append:
  "js_split (a @ b) = butlast (js_split a) @ js_split (last (js_split a) @ b)"
proof (induction a)
  case Nil
  show ?case by simp
next
  case (Cons c a)
  obtain l ls where sp: "js_split a = l # ls"
    using js_split_nonempty [of a] by (cases "js_split a") auto
  show ?case
  proof (cases "c = newline")
    case True
    then show ?thesis using Cons js_split_nonempty [of a] by simp
  next
    case False
    show ?thesis
    proof (cases ls)
      case Nil
      then show ?thesis using Cons sp False by simp
    next
      case (Cons m ms)
      then show ?thesis using Cons.IH sp False
        by (cases "js_split (a @ b)") (auto simp: js_split_nonempty)
    qed
  qed
qed

lemma length_js_split: "length (js_split s) = Suc (count_list s newline)"
  by (induction s) (auto split: list.splits simp: js_split_nonempty)

lemma js_split_line: "newline \<notin> set l \<Longrightarrow> js_split (l @ [newline]) = [l, []]"
  by (induction l) auto

lemma sendLines_eq:
  "sendLines st =
     st\<lparr>pendingLines := drop (length (pendingLines st) - 3) (pendingLines st),
        sink := sink st @ lineEvents (take (length (pendingLines st) - 3) (pendingLines st))\<rparr>"
proof (induction st rule: sendLines.induct)
  case (1 st)
  show ?case
  proof (cases "length (pendingLines st) > 3")
    case False
    then show ?thesis by (subst sendLines.simps) (simp add: lineEvents_def)
  next
    case True
    then obtain x xs where p: "pendingLines st = x # xs" by (cases "pendingLines st") auto
    with True have n: "length xs - 2 = Suc (length xs - 3)" by simp
    show ?thesis
      apply (subst sendLines.simps)
      apply (simp only: True if_True "1.IH" [OF True])
      apply (simp add: p emitData_def lineEvents_def n)
      done
  qed
qed

lemma others_Nil [simp]: "others [] = []"
  by (simp add: others_def)

lemma others_Cons [simp]:
  "others (c # cs) = (if is_content c then others cs else c # others cs)"
  by (simp add: others_def)

lemma others_append [simp]: "others (xs @ ys) = others xs @ others ys"
  by (simp add: others_def)

lemma others_lineEvents [simp]: "others (lineEvents ls) = []"
  by (simp add: others_def lineEvents_def)

lemma sink_stripPrefix [simp]: "sink (stripPrefix p st) = sink st"
  by (simp add: stripPrefix_def split: option.splits)

lemma pendingLines_stripPrefix [simp]: "pendingLines (stripPrefix p st) = pendingLines st"
  by (simp add: stripPrefix_def split: option.splits)

lemma sink_splitLines [simp]: "sink (splitLines st) = sink st"
  by (simp add: splitLines_def Let_def)

lemma sink_trimDelta:
  "sink (trimDelta p st d) =
     sink st @ lineEvents (take (length (pend p st d) - 3) (pend p st d))"
  by (simp add: trimDelta_def sendLines_eq pend_def)

lemma pendingLines_trimDelta:
  "pendingLines (trimDelta p st d) = drop (length (pend p st d) - 3) (pend p st d)"
  by (simp add: trimDelta_def sendLines_eq pend_def)

lemma pend_no_newline:
  assumes "\<forall>l \<in> set (pendingLines st). newline \<notin> set l"
  shows "\<forall>l \<in> set (pend p st d). newline \<notin> set l"
  using assms
  by (auto simp: pend_def splitLines_def Let_def dest: in_set_butlastD js_split_no_newline)

lemma sink_handleChunk_None:
  "sink (handleChunk js t None st c) = sink st @ sink (handleChunk js t None initial c)"
  by (cases c) (simp_all add: emitData_def emitError_def initial_def)

lemma others_handleChunk:
  "others (sink (handleChunk js t trim st c)) =
     others (sink st) @ others (sink (handleChunk js t None initial c))"
  by (cases c)
     (auto simp: emitData_def emitError_def initial_def sink_trimDelta
           split: option.splits)

lemma sink_forAwait_None:
  "sink (forAwait js clk None i st cs) =
     sink st @ concat (map (\<lambda>(j, c). sink (handleChunk js (clk j) None initial c)) (enumerate i cs))"
proof (induction cs arbitrary: i st)
  case Nil
  show ?case by simp
next
  case (Cons c cs)
  show ?case
    by (simp add: Cons.IH sink_handleChunk_None [of js "clk i" st c])
qed

lemma others_forAwait:
  "others (sink (forAwait js clk trim i st cs)) =
     others (sink st) @ others (sink (forAwait js clk None i initial cs))"
proof (induction cs arbitrary: i st trim)
  case Nil
  show ?case by (simp add: initial_def others_def)
next
  case (Cons c cs)
  have "others (sink (forAwait js clk trim i st (c # cs))) =
        others (sink st) @ others (sink (handleChunk js (clk i) None initial c)) @
        others (sink (forAwait js clk None (Suc i) initial cs))"
    by (simp add: Cons.IH [where trim = trim] others_handleChunk [of js "clk i" trim st c])
  moreover have "others (sink (forAwait js clk None i initial (c # cs))) =
        others (sink (handleChunk js (clk i) None initial c)) @
        others (sink (forAwait js clk None (Suc i) initial cs))"
    using Cons.IH [where trim = None and i = "Suc i"
                   and st = "handleChunk js (clk i) None initial c"] by simp
  ultimately show ?case by simp
qed

lemma others_sendRemaining [simp]: "others (sendRemaining ls) = []"
  by (induction ls rule: sendRemaining.induct) (simp_all add: others_def)

lemma others_flushRemaining [simp]: "others (sink (flushRemaining trim st)) = others (sink st)"
  by (simp add: flushRemaining_def Let_def split: option.splits)

lemma End_others: "End \<in> set (others xs) \<longleftrightarrow> End \<in> set xs"
  by (auto simp: others_def)

lemma errors_others: "filter is_error (others xs) = filter is_error xs"
proof (induction xs)
  case Nil
  show ?case by simp
next
  case (Cons c cs)
  then show ?case by (cases c rule: is_content.cases) simp_all
qed

lemma End_handleChunk_None: "End \<notin> set (sink (handleChunk js t None initial c))"
  by (cases c) (simp_all add: emitData_def emitError_def initial_def)

lemma errors_handleChunk_None:
  "length (filter is_error (sink (handleChunk js t None initial c))) =
     (if is_error_chunk c then 1 else 0)"
  by (cases c) (simp_all add: emitData_def emitError_def initial_def)

lemma sink_initial [simp]: "sink initial = []"
  by (simp add: initial_def)

lemma End_forAwait_None: "End \<notin> set (sink (forAwait js clk None i initial cs))"
  using End_handleChunk_None [of js] by (auto simp: sink_forAwait_None)

lemma errors_forAwait_None:
  "length (filter is_error (sink (forAwait js clk None i st cs))) =
     length (filter is_error (sink st)) + length (filter is_error_chunk cs)"
proof (induction cs arbitrary: i st)
  case Nil
  show ?case by simp
next
  case (Cons c cs)
  show ?case
    using errors_handleChunk_None [of js "clk i" c]
    by (simp add: Cons.IH sink_handleChunk_None [of js "clk i" st c])
qed

lemma End_forAwait: "End \<notin> set (sink (forAwait js clk trim i initial cs))"
proof -
  have "End \<notin> set (others (sink (forAwait js clk trim i initial cs)))"
    by (simp add: others_forAwait [of js clk trim i initial cs] End_others
          End_forAwait_None)
  then show ?thesis by (simp add: End_others)
qed

lemma errors_forAwait:
  "length (filter is_error (sink (forAwait js clk trim i initial cs))) =
     length (filter is_error_chunk cs)"
proof -
  have "filter is_error (sink (forAwait js clk trim i initial cs)) =
        filter is_error (others (sink (forAwait js clk trim i initial cs)))"
    by (simp add: errors_others)
  also have "\<dots> = filter is_error (sink (forAwait js clk None i initial cs))"
    by (simp add: others_forAwait [of js clk trim i initial cs] errors_others)
  finally show ?thesis by (simp add: errors_forAwait_None)
qed

lemma End_flushRemaining:
  "End \<in> set (sink (flushRemaining trim st)) \<longleftrightarrow> End \<in> set (sink st)"
  using End_others [of "sink (flushRemaining trim st)"] End_others [of "sink st"]
  by simp

lemma contents_append [simp]: "contents (xs @ ys) = contents xs @ contents ys"
  by (induction xs rule: contents.induct) simp_all

lemma contents_lineEvents [simp]: "contents (lineEvents ls) = map (\<lambda>l. l @ [newline]) ls"
  by (induction ls) (simp_all add: lineEvents_def)

lemma lines_ok_trimDelta:
  assumes "lines_ok st"
  shows "lines_ok (trimDelta p st d)"
proof -
  have pd: "\<forall>l \<in> set (pend p st d). newline \<notin> set l"
    using assms pend_no_newline [of st p d] by (simp add: lines_ok_def)
  have "\<forall>l \<in> set (drop (length (pend p st d) - 3) (pend p st d)). newline \<notin> set l"
    using pd by (auto dest: in_set_dropD)
  moreover have "\<forall>l \<in> set (take (length (pend p st d) - 3) (pend p st d)).
                   completed_line (l @ [newline])"
    using pd by (auto simp: completed_line_def dest: in_set_takeD)
  ultimately show ?thesis
    using assms by (auto simp: lines_ok_def sink_trimDelta pendingLines_trimDelta)
qed

lemma lines_ok_handleChunk:
  "lines_ok st \<Longrightarrow> lines_ok (handleChunk js t (Some (p, s)) st c)"
  by (cases c) (simp_all add: lines_ok_trimDelta, simp_all add: lines_ok_def emitData_def emitError_def)

lemma lines_ok_forAwait:
  "lines_ok st \<Longrightarrow> lines_ok (forAwait js clk (Some (p, s)) i st cs)"
  by (induction cs arbitrary: i st) (simp_all add: lines_ok_handleChunk)

lemma trimDelta_after_prefix:
  assumes "count_list (r @ d) newline \<le> 3"
  shows "trimDelta p (after_prefix r) d = after_prefix (r @ d)"
proof -
  let ?ls = "js_split (last (js_split r) @ d)"
  have sp: "js_split (r @ d) = butlast (js_split r) @ ?ls"
    by (rule js_split_append)
  have ne: "?ls \<noteq> []" by (rule js_split_nonempty)
  have bl: "butlast (js_split (r @ d)) = butlast (js_split r) @ butlast ?ls"
    using ne by (simp add: sp butlast_append)
  have la: "last (js_split (r @ d)) = last ?ls"
    using ne by (simp add: sp)
  have "length (butlast (js_split (r @ d))) \<le> 3"
    using assms by (simp add: length_js_split)
  then have len: "length (butlast (js_split r)) + length (butlast ?ls) \<le> 3"
    by (simp add: bl)
  show ?thesis
    using len
    by (simp add: trimDelta_def sendLines_eq stripPrefix_def splitLines_def Let_def
          after_prefix_def bl la lineEvents_def)
qed

lemma trimDelta_found:
  assumes "indexOf (b @ d) p = Some i"
    and "count_list (drop (i + length p) (b @ d)) newline \<le> 3"
  shows "trimDelta p (before_prefix b) d = after_prefix (drop (i + length p) (b @ d))"
proof -
  have "length (butlast (js_split (drop (i + length p) (b @ d)))) \<le> 3"
    using assms(2) by (simp add: length_js_split)
  then show ?thesis
    using assms(1)
    by (simp add: trimDelta_def sendLines_eq stripPrefix_def splitLines_def Let_def
          after_prefix_def before_prefix_def js_includes_def lineEvents_def)
qed

lemma trimDelta_not_found:
  assumes "indexOf (b @ d) p = None" and "newline \<notin> set (b @ d)"
  shows "trimDelta p (before_prefix b) d = before_prefix (b @ d)"
  using assms js_split_plain [of "b @ d"]
  by (simp add: trimDelta_def sendLines_eq stripPrefix_def splitLines_def Let_def
        before_prefix_def js_includes_def lineEvents_def)

lemma count_list_drop_le: "count_list (drop k xs) a \<le> count_list xs a"
proof -
  have "count_list (take k xs @ drop k xs) a = count_list (take k xs) a + count_list (drop k xs) a"
    by (rule count_list_append)
  then show ?thesis by simp
qed

lemma count_list_prefix_le: "prefix xs ys \<Longrightarrow> count_list xs a \<le> count_list ys a"
  by (auto simp: prefix_def)

lemma sample_newlines: "count_list sample newline = 1"
  by simp

lemma sample_short_prefix:
  assumes "prefix x sample" and "length x < 2"
  shows "indexOf x ''P:'' = None \<and> newline \<notin> set x"
proof (cases x)
  case Nil
  then show ?thesis by simp
next
  case (Cons a y)
  then have "y = []" using assms(2) by simp
  then show ?thesis using assms(1) Cons by auto
qed

lemma sample_long_prefix:
  assumes "prefix x sample" and "2 \<le> length x"
  shows "indexOf x ''P:'' = Some 0"
proof -
  obtain a b r where x: "x = a # b # r"
    using assms(2) by (cases x; cases "tl x") auto
  then show ?thesis using assms(1) by simp
qed

lemma reached_step:
  assumes "prefix (t @ d) sample"
  shows "trimDelta ''P:'' (reached t) d = (reached (t @ d) :: 'v state)"
proof -
  have cnt: "count_list (drop k (t @ d)) newline \<le> 3" for k
    using count_list_drop_le [of k "t @ d" newline]
      count_list_prefix_le [OF assms, of newline] by simp
  consider (A) "length (t @ d) < 2" | (B) "length t < 2" "2 \<le> length (t @ d)"
    | (C) "2 \<le> length t" by linarith
  then show ?thesis
  proof cases
    case A
    have "indexOf (t @ d) ''P:'' = None" "newline \<notin> set (t @ d)"
      using sample_short_prefix [OF assms A] by blast+
    then have "trimDelta ''P:'' (before_prefix t) d = (before_prefix (t @ d) :: 'v state)"
      by (rule trimDelta_not_found)
    then show ?thesis using A by (simp add: reached_def)
  next
    case B
    have ix: "indexOf (t @ d) ''P:'' = Some 0"
      using assms B(2) by (rule sample_long_prefix)
    have two: "0 + length ''P:'' = 2" by simp
    have "trimDelta ''P:'' (before_prefix t) d =
            (after_prefix (drop (0 + length ''P:'') (t @ d)) :: 'v state)"
      using ix cnt by (rule trimDelta_found)
    then have "trimDelta ''P:'' (before_prefix t) d =
            (after_prefix (drop 2 (t @ d)) :: 'v state)"
      by (simp only: two)
    then show ?thesis using B by (simp add: reached_def)
  next
    case C
    have "count_list (drop 2 t @ d) newline \<le> 3"
      using cnt [of 2] C by simp
    then have "trimDelta ''P:'' (after_prefix (drop 2 t)) d =
            (after_prefix (drop 2 t @ d) :: 'v state)"
      by (rule trimDelta_after_prefix)
    then show ?thesis using C by (simp add: reached_def)
  qed
qed

lemma reached_forAwait:
  "prefix (t @ concat ds) sample \<Longrightarrow>
   forAwait js clk (Some (''P:'', '':E'')) i (reached t) (map TextDelta ds) =
     reached (t @ concat ds)"
proof (induction ds arbitrary: t i)
  case Nil
  show ?case by simp
next
  case (Cons d ds)
  have p1: "prefix ((t @ d) @ concat ds) sample" using Cons.prems by simp
  then have "prefix (t @ d) sample" by (rule append_prefixD)
  then have "trimDelta ''P:'' (reached t) d = (reached (t @ d) :: 'a state)"
    by (rule reached_step)
  then show ?case using Cons.IH [OF p1] by simp
qed

lemma indexOf_Nil [simp]: "indexOf s [] = Some 0"
  by (cases s) simp_all

lemma bufferedText_stripPrefix_keep:
  assumes "p = [] \<or> indexOf (bufferedText st) p = None"
  shows "bufferedText (stripPrefix p st) = bufferedText st"
  using assms by (auto simp: stripPrefix_def js_includes_def)

lemma feed_line:
  assumes "newline \<notin> set l" and "p = [] \<or> indexOf (l @ [newline]) p = None"
    and "bufferedText st = []"
  shows "bufferedText (trimDelta p st (l @ [newline])) = [] \<and>
         pend p st (l @ [newline]) = pendingLines st @ [l]"
proof -
  let ?st1 = "stripPrefix p (st\<lparr>bufferedText := bufferedText st @ l @ [newline]\<rparr>)"
  have b: "bufferedText ?st1 = l @ [newline]"
    using assms(2,3) bufferedText_stripPrefix_keep [of p "st\<lparr>bufferedText := bufferedText st @ l @ [newline]\<rparr>"]
    by simp
  have sp: "js_split (l @ [newline]) = [l, []]"
    using assms(1) by (rule js_split_line)
  show ?thesis
    by (simp add: trimDelta_def sendLines_eq pend_def splitLines_def Let_def b sp)
qed

lemma forAwait_append:
  "forAwait js clk trim i st (xs @ ys) =
     forAwait js clk trim (i + length xs) (forAwait js clk trim i st xs) ys"
  by (induction xs arbitrary: i st) simp_all

lemma fed_grow:
  assumes "fed ls st" and "bufferedText (trimDelta p st d) = []"
    and "pend p st d = pendingLines st @ [l]"
  shows "fed (ls @ [l]) (trimDelta p st d)"
proof (cases "length ls < 3")
  case True
  then show ?thesis
    using assms
    by (simp add: fed_def sink_trimDelta pendingLines_trimDelta lineEvents_def)
next
  case False
  then have n: "length ls - 2 = Suc (length ls - 3)" by simp
  have len: "length (drop (length ls - 3) ls) = 3" using False by simp
  have ne: "drop (length ls - 3) ls \<noteq> []" using len by auto
  have t: "take (length ls - 2) ls = take (length ls - 3) ls @ take 1 (drop (length ls - 3) ls)"
    using take_add [of "length ls - 3" 1 ls] n by simp
  have d: "drop (length ls - 2) ls = drop 1 (drop (length ls - 3) ls)"
    using n by simp
  show ?thesis
    using assms False ne
    by (simp add: fed_def sink_trimDelta pendingLines_trimDelta lineEvents_def len t d)
qed

lemma fed_same:
  assumes "fed ls st" and "bufferedText (trimDelta p st d) = []"
    and "pend p st d = pendingLines st"
  shows "fed ls (trimDelta p st d)"
  using assms
  by (simp add: fed_def sink_trimDelta pendingLines_trimDelta lineEvents_def)

lemma fed_step:
  assumes "fed ls st" and "newline \<notin> set l" and "p = [] \<or> indexOf (l @ [newline]) p = None"
  shows "fed (ls @ [l]) (trimDelta p st (l @ [newline]))"
proof -
  have b: "bufferedText st = []" using assms(1) by (simp add: fed_def)
  have f: "bufferedText (trimDelta p st (l @ [newline])) = []"
    "pend p st (l @ [newline]) = pendingLines st @ [l]"
    using feed_line [OF assms(2,3) b] by simp_all
  show ?thesis using assms(1) f by (rule fed_grow)
qed

lemma lines_fed:
  assumes "\<forall>l \<in> set ls. newline \<notin> set l \<and> (p = [] \<or> indexOf (l @ [newline]) p = None)"
  shows "fed ls (forAwait js clk (Some (p, s)) i initial (map (\<lambda>l. TextDelta (l @ [newline])) ls))"
  using assms
proof (induction ls rule: rev_induct)
  case Nil
  show ?case by (simp add: fed_def initial_def lineEvents_def)
next
  case (snoc l ls)
  have "fed ls (forAwait js clk (Some (p, s)) i initial (map (\<lambda>l. TextDelta (l @ [newline])) ls))"
    using snoc by simp
  then have "fed (ls @ [l])
     (trimDelta p (forAwait js clk (Some (p, s)) i initial (map (\<lambda>l. TextDelta (l @ [newline])) ls))
        (l @ [newline]))"
    using snoc.prems by (intro fed_step) simp_all
  then show ?case by (simp add: forAwait_append)
qed

lemma stripPrefix_drop: "\<exists>k. bufferedText (stripPrefix p st) = drop k (bufferedText st)"
proof (cases "isFirstChunk st \<and> js_includes (bufferedText st) p")
  case False
  then have "bufferedText (stripPrefix p st) = drop 0 (bufferedText st)"
    by (auto simp: stripPrefix_def)
  then show ?thesis by blast
next
  case True
  then obtain i where "indexOf (bufferedText st) p = Some i"
    by (auto simp: js_includes_def)
  with True have "bufferedText (stripPrefix p st) = drop (i + length p) (bufferedText st)"
    by (simp add: stripPrefix_def)
  then show ?thesis by blast
qed

lemma feed_any_line:
  assumes "newline \<notin> set l" and "bufferedText st = []"
  shows "bufferedText (trimDelta p st (l @ [newline])) = [] \<and>
         (pend p st (l @ [newline]) = pendingLines st \<or>
          (\<exists>l'. pend p st (l @ [newline]) = pendingLines st @ [l']))"
proof -
  let ?st1 = "stripPrefix p (st\<lparr>bufferedText := bufferedText st @ l @ [newline]\<rparr>)"
  obtain k where k: "bufferedText ?st1 = drop k (l @ [newline])"
    using stripPrefix_drop [of p "st\<lparr>bufferedText := bufferedText st @ l @ [newline]\<rparr>"]
      assms(2) by auto
  show ?thesis
  proof (cases "k \<le> length l")
    case True
    have "newline \<notin> set (drop k l)" using assms(1) by (auto dest: in_set_dropD)
    then have sp: "js_split (drop k l @ [newline]) = [drop k l, []]" by (rule js_split_line)
    have b: "bufferedText ?st1 = drop k l @ [newline]" using k True by simp
    show ?thesis
      by (simp add: trimDelta_def sendLines_eq pend_def splitLines_def Let_def b sp)
  next
    case False
    then have b: "bufferedText ?st1 = []" using k by simp
    show ?thesis
      by (simp add: trimDelta_def sendLines_eq pend_def splitLines_def Let_def b)
  qed
qed

lemma fed_any_step:
  assumes "fed ls st" and "newline \<notin> set l"
  shows "\<exists>ls'. fed ls' (trimDelta p st (l @ [newline])) \<and> length ls' \<le> Suc (length ls)"
proof -
  have b: "bufferedText st = []" using assms(1) by (simp add: fed_def)
  have f: "bufferedText (trimDelta p st (l @ [newline])) = []"
    and g: "pend p st (l @ [newline]) = pendingLines st \<or>
          (\<exists>l'. pend p st (l @ [newline]) = pendingLines st @ [l'])"
    using feed_any_line [OF assms(2) b, of p] by simp_all
  from g show ?thesis
  proof
    assume "pend p st (l @ [newline]) = pendingLines st"
    then have "fed ls (trimDelta p st (l @ [newline]))"
      using assms(1) f by (intro fed_same)
    then show ?thesis by auto
  next
    assume "\<exists>l'. pend p st (l @ [newline]) = pendingLines st @ [l']"
    then obtain l' where "pend p st (l @ [newline]) = pendingLines st @ [l']" by blast
    then have "fed (ls @ [l']) (trimDelta p st (l @ [newline]))"
      using assms(1) f by (intro fed_grow)
    then show ?thesis by (intro exI [of _ "ls @ [l']"]) simp
  qed
qed

lemma lines_fed_any:
  assumes "\<forall>l \<in> set ls. newline \<notin> set l"
  shows "\<exists>ls'. fed ls' (forAwait js clk (Some (p, s)) i initial
                 (map (\<lambda>l. TextDelta (l @ [newline])) ls)) \<and> length ls' \<le> length ls"
  using assms
proof (induction ls rule: rev_induct)
  case Nil
  have "fed [] (initial :: 'a state)" by (simp add: fed_def initial_def lineEvents_def)
  then show ?case by auto
next
  case (snoc l ls)
  then obtain ls' where a: "fed ls' (forAwait js clk (Some (p, s)) i initial
                 (map (\<lambda>l. TextDelta (l @ [newline])) ls))" and b: "length ls' \<le> length ls"
    by auto
  have "newline \<notin> set l" using snoc.prems by simp
  then obtain ls'' where "fed ls'' (trimDelta p (forAwait js clk (Some (p, s)) i initial
                 (map (\<lambda>l. TextDelta (l @ [newline])) ls)) (l @ [newline]))"
      and "length ls'' \<le> Suc (length ls')"
    using fed_any_step [OF a] by blast
  then show ?case using b by (auto simp: forAwait_append)
qed

lemma fed_contents: "fed ls st \<Longrightarrow> length (contents (sink st)) = length ls - 3"
  by (simp add: fed_def)

lemma prefix_inside_a_line_changes_it:
  "sink (forAwait sampleStringify sampleClock (Some (''P:'', [])) 0 initial
      [TextDelta ''P:a\<newline>'', TextDelta ''b\<newline>'', TextDelta ''c\<newline>'', TextDelta ''P:\<newline>'']) =
     [EmitData (Content ''a\<newline>'')] \<and>
   sink (forAwait sampleStringify sampleClock (Some (''a\<newline>'', [])) 0 initial
      [TextDelta ''a\<newline>'', TextDelta ''b\<newline>'', TextDelta ''c\<newline>'', TextDelta ''d\<newline>'']) = []"
  by (simp add: initial_def emitData_def trimDelta_def sendLines_eq stripPrefix_def
        js_includes_def splitLines_def lineEvents_def)

lemma handleChunk_nontext:
  "\<not> is_text_delta c \<Longrightarrow>
   handleChunk js t trim st c = st\<lparr>sink := sink st @ sink (handleChunk js t None initial c)\<rparr>"
  by (cases c) (simp_all add: emitData_def emitError_def initial_def)

lemma aiTools_Nil [simp]: "aiTools js [] = Map.empty"
  by (simp add: aiTools_def)

section \<open>The claims\<close>

subsection \<open>C1: an \<open>error\<close> chunk\<close>

text \<open>
  C1 says that after an \<open>Error\<close> chunk the sink receives exactly one error event, no
  later event and no close, the dispatcher consuming no further chunk. The \<open>error\<close>
  branch of the loop only calls \<open>emitError\<close>: the loop goes on and \<open>end()\<close> follows.
  On the chunks \<open>Error boom, TextDelta x\<close> without trim configuration the sink receives
  the error event, then the content event of the later chunk, then the close. The
  \<open>catch\<close> block of the same method does end on \<open>emitError\<close> without a close.
\<close>

theorem error_chunk_does_not_stop_the_loop:
  "dispatch sampleStringify sampleClock None (Inr ([ErrorChunk ''boom'', TextDelta ''x''], None)) =
     [EmitError (Error ''boom''), EmitData (Content ''x''), End]"
  by (simp add: dispatch_def initial_def emitData_def emitError_def endStream_def
        flushRemaining_def)

subsection \<open>C2: tool-call and error events against withheld text\<close>

text \<open>
  C2 says that no tool-call or error event reaches the sink ahead of a content event whose
  text came from an earlier chunk. With the trim configuration \<open>(P:, :E)\<close> the text
  \<open>hello\<close> is held in the buffer, the tool-call event of the next chunk is sent at once,
  and the text follows only in the flush after the loop.
\<close>

theorem tool_call_overtakes_withheld_text:
  "dispatch sampleStringify sampleClock (Some (''P:'', '':E''))
     (Inr ([TextDelta ''hello'', ToolCallStreamingStart ''c1'' ''search''], None)) =
   [EmitData (ToolCall ''c1'' ''search'' None None StreamingStart),
    EmitData (Content ''hello''), End]"
  by (simp add: dispatch_def initial_def emitData_def endStream_def flushRemaining_def
        trimDelta_def sendLines_eq stripPrefix_def js_includes_def splitLines_def
        removeSuffix_def lineEvents_def suffix_to_prefix)

text \<open>
  C2 as amended: without trim configuration the calls on the sink are, in chunk order,
  the calls of each chunk taken alone, followed by the close, so that no tool-call or
  error event precedes content of an earlier chunk. With a trim configuration the calls
  other than content events (tool-call events, error events, the close) are the same
  calls in the same order as without one, whatever the provider answers. And whatever
  the trim configuration, the chunks handled before and the state of the loop, a chunk
  that is not a text delta is handled by appending its own calls, the calls it makes
  without trim configuration, to the sink, and by nothing else: the buffer, the pending
  lines and the prefix flag stay as they are. So a tool-call or error event is sent
  when its chunk is handled, text withheld by the trim filter is not flushed before it,
  and that text reaches the sink only later, through a text delta or the flush after
  the loop.
\<close>

theorem tool_and_error_events_follow_chunk_order:
  "dispatch js clk None (Inr (chunks, None)) =
     concat (map (\<lambda>(i, c). sink (handleChunk js (clk i) None initial c)) (enumerate 0 chunks))
     @ [End] \<and>
   others (dispatch js clk trim answer) = others (dispatch js clk None answer) \<and>
   (\<not> is_text_delta c \<longrightarrow>
      forAwait js clk trim i st (pre @ [c]) =
        (forAwait js clk trim i st pre)
          \<lparr>sink := sink (forAwait js clk trim i st pre) @
                   sink (handleChunk js (clk (i + length pre)) None initial c)\<rparr>)"
proof (intro conjI impI)
  show "dispatch js clk None (Inr (chunks, None)) =
     concat (map (\<lambda>(i, c). sink (handleChunk js (clk i) None initial c)) (enumerate 0 chunks))
     @ [End]"
    by (simp add: dispatch_def Let_def endStream_def flushRemaining_def sink_forAwait_None)
next
  show "others (dispatch js clk trim answer) = others (dispatch js clk None answer)"
  proof (cases answer)
    case (Inl e)
    then show ?thesis by (simp add: dispatch_def)
  next
    case (Inr r)
    obtain cs fault where r: "r = (cs, fault)" by (cases r)
    have "others (sink (forAwait js clk trim 0 initial cs)) =
          others (sink (forAwait js clk None 0 initial cs))"
      by (simp add: others_forAwait [of js clk trim 0 initial cs])
    then show ?thesis
      by (cases fault)
         (simp_all add: Inr r dispatch_def Let_def endStream_def emitError_def)
  qed
next
  assume "\<not> is_text_delta c"
  then show "forAwait js clk trim i st (pre @ [c]) =
        (forAwait js clk trim i st pre)
          \<lparr>sink := sink (forAwait js clk trim i st pre) @
                   sink (handleChunk js (clk (i + length pre)) None initial c)\<rparr>"
    by (simp add: forAwait_append handleChunk_nontext [of c js _ trim])
qed

text \<open>C2 as amended at the text \<open>hello\<close> followed by the start of a tool call, with the
  trim configuration \<open>(P:, :E)\<close>: the tool-call event is on the sink and the text is still
  in the buffer.\<close>

theorem tool_and_error_events_follow_chunk_order_witness:
  "\<not> is_text_delta (ToolCallStreamingStart ''c1'' ''search'' :: unit chunk) \<and>
   forAwait sampleStringify sampleClock (Some (''P:'', '':E'')) 0 initial
     ([TextDelta ''hello''] @ [ToolCallStreamingStart ''c1'' ''search'']) =
     \<lparr>isFirstChunk = True, bufferedText = ''hello'', pendingLines = [],
      sink = [EmitData (ToolCall ''c1'' ''search'' None None StreamingStart)]\<rparr>"
proof -
  have n: "\<not> is_text_delta (ToolCallStreamingStart ''c1'' ''search'' :: unit chunk)" by simp
  have a: "forAwait sampleStringify sampleClock (Some (''P:'', '':E'')) 0 initial
             [TextDelta ''hello''] =
           \<lparr>isFirstChunk = True, bufferedText = ''hello'', pendingLines = [], sink = []\<rparr>"
    by (simp add: initial_def trimDelta_def sendLines_eq stripPrefix_def
          js_includes_def splitLines_def lineEvents_def)
  have b: "sink (handleChunk sampleStringify (sampleClock (0 + length [TextDelta ''hello'' :: unit chunk]))
             None initial (ToolCallStreamingStart ''c1'' ''search'')) =
           [EmitData (ToolCall ''c1'' ''search'' None None StreamingStart)]"
    by (simp add: initial_def emitData_def)
  have "forAwait sampleStringify sampleClock (Some (''P:'', '':E'')) 0 initial
     ([TextDelta ''hello''] @ [ToolCallStreamingStart ''c1'' ''search'']) =
     (forAwait sampleStringify sampleClock (Some (''P:'', '':E'')) 0 initial [TextDelta ''hello''])
       \<lparr>sink := sink (forAwait sampleStringify sampleClock (Some (''P:'', '':E'')) 0 initial
                       [TextDelta ''hello'']) @
                sink (handleChunk sampleStringify
                       (sampleClock (0 + length [TextDelta ''hello'' :: unit chunk]))
                       None initial (ToolCallStreamingStart ''c1'' ''search''))\<rparr>"
    using n tool_and_error_events_follow_chunk_order [where js = sampleStringify and clk = sampleClock
        and trim = "Some (''P:'', '':E'')" and c = "ToolCallStreamingStart ''c1'' ''search''"
        and i = 0 and st = initial and pre = "[TextDelta ''hello'']"
        and chunks = "[]" and answer = "Inl (Error [])"]
    by blast
  then show ?thesis using n by (simp only: a b) simp
qed

subsection \<open>C3: prefix and suffix are trimmed whatever the chunking\<close>

text \<open>
  C3: with prefix \<open>P:\<close> and suffix \<open>:E\<close>, for every list of deltas whose concatenation
  is \<open>P:hello\<newline>world:E\<close> (one character per delta included), followed by the end of the
  stream, the concatenated text of the content events is exactly \<open>hello\<newline>world\<close>.
\<close>

theorem trim_round_trip_any_chunking:
  assumes "concat ds = ''P:hello\<newline>world:E''"
  shows "concat (contents (dispatch js clk (Some (''P:'', '':E''))
                     (Inr (map TextDelta ds, None)))) = ''hello\<newline>world''"
proof -
  have "prefix ([] @ concat ds) sample" using assms by simp
  then have "forAwait js clk (Some (''P:'', '':E'')) 0 (reached []) (map TextDelta ds) =
             reached ([] @ concat ds)"
    by (rule reached_forAwait)
  moreover have "(reached [] :: 'a state) = initial"
    by (simp add: reached_def before_prefix_def initial_def)
  ultimately have "forAwait js clk (Some (''P:'', '':E'')) 0 initial (map TextDelta ds) =
             after_prefix ''hello\<newline>world:E''"
    using assms by (simp add: reached_def)
  then show ?thesis
    by (simp add: dispatch_def Let_def endStream_def flushRemaining_def after_prefix_def
          removeSuffix_def suffix_to_prefix)
qed

text \<open>C3 at the chunking with one character per delta.\<close>

theorem trim_round_trip_one_char_per_delta:
  "concat (map (\<lambda>c. [c]) ''P:hello\<newline>world:E'') = ''P:hello\<newline>world:E'' \<and>
   concat (contents (dispatch sampleStringify sampleClock (Some (''P:'', '':E''))
              (Inr (map TextDelta (map (\<lambda>c. [c]) ''P:hello\<newline>world:E''), None)))) =
     ''hello\<newline>world''"
  using trim_round_trip_any_chunking [of "map (\<lambda>c. [c]) ''P:hello\<newline>world:E''" sampleStringify sampleClock]
  by simp

subsection \<open>C4: five lines, no suffix\<close>

text \<open>
  C4 says that with a trim configuration without suffix, five lines fed one per delta
  give at least two content events before the fifth delta, and all five lines by the
  end of the request. On the lines \<open>a\<close> to \<open>e\<close> with prefix \<open>P:\<close> and empty suffix,
  fewer than two lines have been sent after four deltas, and the lines sent by the end
  are not the five lines.
\<close>

theorem five_lines_not_all_sent:
  "\<not> 2 \<le> length (contents (sink (forAwait sampleStringify sampleClock (Some (''P:'', [])) 0
           initial
           [TextDelta ''a\<newline>'', TextDelta ''b\<newline>'', TextDelta ''c\<newline>'',
            TextDelta ''d\<newline>'']))) \<and>
   contents (dispatch sampleStringify sampleClock (Some (''P:'', []))
          (Inr ([TextDelta ''a\<newline>'', TextDelta ''b\<newline>'', TextDelta ''c\<newline>'',
                 TextDelta ''d\<newline>'', TextDelta ''e\<newline>''], None))) \<noteq>
     [''a\<newline>'', ''b\<newline>'', ''c\<newline>'', ''d\<newline>'', ''e\<newline>'']"
  by (simp add: dispatch_def initial_def emitData_def endStream_def flushRemaining_def
        trimDelta_def sendLines_eq stripPrefix_def js_includes_def splitLines_def
        lineEvents_def)

text \<open>
  C4 as amended, for the part of C4 that the loop decides: with a trim configuration
  whose suffix is empty and whatever its prefix, when lines without line break are fed
  one per delta, each with its line break, at most one line has been sent as content
  before the fifth delta is handled, since the loop sends a line only while more than
  three are pending. When the prefix is empty or occurs in none of the four lines, the
  sink has then received exactly the first line. (A prefix that occurs in a line changes
  or removes that line, see \<open>prefix_inside_a_line_changes_it\<close>.) Nothing is stated
  here about what the request has sent when it ends: the lines are withheld under
  \<open>trimTexts?.length\<close>, to recognise a suffix, and the flush that sends them is entered
  under \<open>trimTexts?.[1]\<close>.
\<close>

theorem five_lines_without_suffix:
  assumes "newline \<notin> set l1" and "newline \<notin> set l2" and "newline \<notin> set l3"
    and "newline \<notin> set l4"
  shows "length (contents (sink (forAwait js clk (Some (p, [])) 0 initial
           (map TextDelta [l1 @ [newline], l2 @ [newline], l3 @ [newline], l4 @ [newline]]))))
           \<le> 1 \<and>
         (p = [] \<or> (\<forall>l \<in> set [l1, l2, l3, l4]. indexOf (l @ [newline]) p = None) \<longrightarrow>
          sink (forAwait js clk (Some (p, [])) 0 initial
           (map TextDelta [l1 @ [newline], l2 @ [newline], l3 @ [newline], l4 @ [newline]])) =
           [EmitData (Content (l1 @ [newline]))])"
proof
  have "\<forall>l \<in> set [l1, l2, l3, l4]. newline \<notin> set l" using assms by simp
  then obtain ls' where "fed ls' (forAwait js clk (Some (p, [])) 0 initial
          (map (\<lambda>l. TextDelta (l @ [newline])) [l1, l2, l3, l4]))"
      and "length ls' \<le> length [l1, l2, l3, l4]"
    using lines_fed_any [of "[l1, l2, l3, l4]" js clk p "[]" 0] by blast
  then show "length (contents (sink (forAwait js clk (Some (p, [])) 0 initial
           (map TextDelta [l1 @ [newline], l2 @ [newline], l3 @ [newline], l4 @ [newline]]))))
           \<le> 1"
    using fed_contents by fastforce
next
  show "p = [] \<or> (\<forall>l \<in> set [l1, l2, l3, l4]. indexOf (l @ [newline]) p = None) \<longrightarrow>
          sink (forAwait js clk (Some (p, [])) 0 initial
           (map TextDelta [l1 @ [newline], l2 @ [newline], l3 @ [newline], l4 @ [newline]])) =
           [EmitData (Content (l1 @ [newline]))]"
  proof
    assume "p = [] \<or> (\<forall>l \<in> set [l1, l2, l3, l4]. indexOf (l @ [newline]) p = None)"
    then have "\<forall>l \<in> set [l1, l2, l3, l4].
             newline \<notin> set l \<and> (p = [] \<or> indexOf (l @ [newline]) p = None)"
      using assms by auto
    then have "fed [l1, l2, l3, l4] (forAwait js clk (Some (p, [])) 0 initial
          (map (\<lambda>l. TextDelta (l @ [newline])) [l1, l2, l3, l4]))"
      by (rule lines_fed)
    then show "sink (forAwait js clk (Some (p, [])) 0 initial
           (map TextDelta [l1 @ [newline], l2 @ [newline], l3 @ [newline], l4 @ [newline]])) =
           [EmitData (Content (l1 @ [newline]))]"
      by (simp add: fed_def lineEvents_def)
  qed
qed

text \<open>C4 as amended at the lines \<open>a\<close> to \<open>d\<close> and the prefix \<open>P:\<close>.\<close>

theorem five_lines_without_suffix_witness:
  "newline \<notin> set ''a'' \<and> newline \<notin> set ''d'' \<and> indexOf ''a\<newline>'' ''P:'' = None \<and>
   length (contents (sink (forAwait sampleStringify sampleClock (Some (''P:'', [])) 0 initial
           (map TextDelta [''a'' @ [newline], ''b'' @ [newline], ''c'' @ [newline],
              ''d'' @ [newline]])))) \<le> 1 \<and>
   sink (forAwait sampleStringify sampleClock (Some (''P:'', [])) 0 initial
           (map TextDelta [''a'' @ [newline], ''b'' @ [newline], ''c'' @ [newline],
              ''d'' @ [newline]])) =
     [EmitData (Content (''a'' @ [newline]))]"
proof -
  have n: "newline \<notin> set ''a''" "newline \<notin> set ''b''" "newline \<notin> set ''c''"
    "newline \<notin> set ''d''"
    by simp_all
  have h: "''P:'' = [] \<or>
      (\<forall>l \<in> set [''a'', ''b'', ''c'', ''d'']. indexOf (l @ [newline]) ''P:'' = None)"
    by simp
  have i: "indexOf ''a\<newline>'' ''P:'' = None" by simp
  show ?thesis
    using n i h five_lines_without_suffix [OF n, of sampleStringify sampleClock "''P:''"] by blast
qed

subsection \<open>C5: a request without client identifier\<close>

text \<open>
  C5 says that a request without client identifier is rejected as a configuration error
  before any provider call. \<open>request\<close> calls \<open>initializeProvider\<close> before it tests the
  client identifier: with an \<open>initializeProvider\<close> that throws, the request without
  client identifier is rejected with that error, after the call.
\<close>

theorem missing_clientId_other_error:
  "clientId (sampleOptions\<lparr>clientId := None\<rparr>) = None \<and>
   fst (request failingEnv ''hello'' (sampleOptions\<lparr>clientId := None\<rparr>)) =
     Some (Error ''apiKey is required'') \<and>
   initialize_calls (snd (request failingEnv ''hello'' (sampleOptions\<lparr>clientId := None\<rparr>))) =
     [sampleOptions\<lparr>clientId := None\<rparr>]"
  by (simp add: request_def failingEnv_def sampleEnv_def failingInitializeProvider_def
        initialized_def)

text \<open>
  C5 as amended: when the options carry no client identifier (\<open>undefined\<close> or the empty
  string), \<open>request\<close> calls \<open>initializeProvider\<close> once with the options and is then
  rejected, \<open>streamText\<close> is never called and no call is made on the sink. The error is
  \<open>clientId is required\<close> when \<open>initializeProvider\<close> returns, and the error of
  \<open>initializeProvider\<close> when it throws.
\<close>

theorem missing_clientId_is_rejected:
  assumes "clientId opts = None \<or> clientId opts = Some []"
  shows "request E req opts =
           (case initializeProvider E opts of
              Inl e \<Rightarrow> Some e
            | Inr provider \<Rightarrow> Some (Error ''clientId is required''),
            \<lparr>initialize_calls = [opts], provider_calls = [], sink_calls = []\<rparr>)"
  using assms by (auto simp: request_def initialized_def split: sum.splits)

text \<open>C5 as amended at the sample options with the client identifier removed.\<close>

theorem missing_clientId_is_rejected_witness:
  "clientId (sampleOptions\<lparr>clientId := None\<rparr>) = None \<and>
   request sampleEnv ''hello'' (sampleOptions\<lparr>clientId := None\<rparr>) =
     (Some (Error ''clientId is required''),
      \<lparr>initialize_calls = [sampleOptions\<lparr>clientId := None\<rparr>], provider_calls = [],
       sink_calls = []\<rparr>)"
proof -
  have h: "clientId (sampleOptions\<lparr>clientId := None\<rparr>) = None \<or>
           clientId (sampleOptions\<lparr>clientId := None\<rparr>) = Some []"
    by simp
  have i: "initializeProvider sampleEnv (sampleOptions\<lparr>clientId := None\<rparr>) = Inr ()"
    by (simp add: sampleEnv_def sampleInitializeProvider_def)
  show ?thesis
    using missing_clientId_is_rejected [OF h, of sampleEnv "''hello''"] by (simp add: i)
qed

subsection \<open>C6: the close, when no chunk is an error\<close>

text \<open>
  C6: when the stream yields its chunks without a fault and none of them is an \<open>Error\<close>
  chunk, \<open>end()\<close> is called exactly once on the sink and it is the last call.
\<close>

theorem end_once_and_last:
  assumes "\<forall>c \<in> set chunks. \<not> is_error_chunk c"
  shows "count_list (dispatch js clk trim (Inr (chunks, None))) End = 1 \<and>
         last (dispatch js clk trim (Inr (chunks, None))) = End"
proof -
  have "End \<notin> set (sink (flushRemaining trim (forAwait js clk trim 0 initial chunks)))"
    by (simp add: End_flushRemaining End_forAwait)
  then show ?thesis
    by (simp add: dispatch_def Let_def endStream_def)
qed

text \<open>C6 at a text delta followed by the start of a tool call.\<close>

theorem end_once_and_last_witness:
  "\<not> is_error_chunk (TextDelta ''Hi'' :: unit chunk) \<and>
   \<not> is_error_chunk (ToolCallStreamingStart ''c1'' ''search'' :: unit chunk) \<and>
   count_list (dispatch sampleStringify sampleClock None
      (Inr ([TextDelta ''Hi'', ToolCallStreamingStart ''c1'' ''search''], None))) End = 1 \<and>
   last (dispatch sampleStringify sampleClock None
      (Inr ([TextDelta ''Hi'', ToolCallStreamingStart ''c1'' ''search''], None))) = End"
proof -
  have h: "\<forall>c \<in> set [TextDelta ''Hi'', ToolCallStreamingStart ''c1'' ''search'' :: unit chunk].
             \<not> is_error_chunk c"
    by simp
  show ?thesis
    using h end_once_and_last [OF h, of sampleStringify sampleClock None] by simp
qed

subsection \<open>C7: a fault raised while iterating\<close>

text \<open>
  C7: when the iteration is ended by a fault \<open>e\<close>, the calls on the sink are the calls
  made for the chunks yielded before the fault, followed by the one call
  \<open>emitError e\<close>; \<open>end()\<close> is never called; and the error events are one more than the
  \<open>Error\<close> chunks among the chunks yielded. \<open>dispatch\<close> returns these calls: the
  \<open>catch\<close> block lets no fault leave the method.
\<close>

theorem fault_becomes_terminal_error:
  "dispatch js clk trim (Inr (chunks, Some e)) =
     sink (forAwait js clk trim 0 initial chunks) @ [EmitError e] \<and>
   End \<notin> set (dispatch js clk trim (Inr (chunks, Some e))) \<and>
   length (filter is_error (dispatch js clk trim (Inr (chunks, Some e)))) =
     Suc (length (filter is_error_chunk chunks))"
  by (simp add: dispatch_def Let_def emitError_def End_forAwait errors_forAwait)

subsection \<open>C8: no tools when \<open>noTool\<close> is set\<close>

text \<open>
  C8: when \<open>noTool\<close> is set, every call of \<open>streamText\<close> made by \<open>request\<close> carries
  an empty tool table, whatever the registry of the client holds.
\<close>

theorem noTool_gives_empty_tool_table:
  assumes "noTool opts"
  shows "\<forall>a \<in> set (provider_calls (snd (request E req opts))). tools a = Map.empty"
  using assms
  by (auto simp: request_def initialized_def handleStreamingRequest_def Let_def
        streamTextArgs_def split: sum.splits option.splits)

text \<open>C8 at the sample options, whose registry holds one function.\<close>

theorem noTool_gives_empty_tool_table_witness:
  "noTool sampleOptions \<and> getAllFunctions sampleEnv ''client-1'' \<noteq> [] \<and>
   map tools (provider_calls (snd (request sampleEnv ''hello'' sampleOptions))) = [Map.empty]"
proof -
  have h: "noTool sampleOptions" by (simp add: sampleOptions_def)
  have r: "getAllFunctions sampleEnv ''client-1'' \<noteq> []"
    by (simp add: sampleEnv_def sampleRegistry_def)
  have "length (provider_calls (snd (request sampleEnv ''hello'' sampleOptions))) = 1"
    by (simp add: request_def sampleEnv_def sampleOptions_def sampleInitializeProvider_def
          handleStreamingRequest_def Let_def)
  then obtain a where c: "provider_calls (snd (request sampleEnv ''hello'' sampleOptions)) = [a]"
    by (cases "provider_calls (snd (request sampleEnv ''hello'' sampleOptions))") auto
  have "tools a = Map.empty"
    using c noTool_gives_empty_tool_table [OF h, of sampleEnv "''hello''"] by simp
  then show ?thesis using h r c by simp
qed

subsection \<open>C9: the sampling parameters\<close>

text \<open>
  C9 says that \<open>topP\<close> and \<open>topK\<close> reach the provider as the caller gave them. The
  sample options give \<open>topP = 0\<close>, and the provider receives \<open>0.8\<close>: \<open>topP || 0.8\<close>
  takes the default for every falsy value.
\<close>

theorem zero_topP_replaced_by_default:
  "topP sampleOptions = Some (Num 0) \<and>
   map arg_topP (provider_calls (snd (request sampleEnv ''hello'' sampleOptions))) = [Num 0.8]"
  by (simp add: request_def sampleEnv_def sampleOptions_def sampleInitializeProvider_def
        handleStreamingRequest_def Let_def streamTextArgs_def)

text \<open>
  C9 as amended: in every call of \<open>streamText\<close> made by \<open>request\<close>, the temperature is
  the caller's; \<open>topP\<close> is the caller's value when it is given and truthy (neither
  \<open>0\<close> nor \<open>NaN\<close>), and \<open>0.8\<close> when it is omitted or falsy; \<open>topK\<close> is the caller's
  value when it is given and truthy, and \<open>1\<close> when it is omitted or falsy.
\<close>

theorem sampling_parameters_forwarded:
  "\<forall>a \<in> set (provider_calls (snd (request E req opts))).
     arg_temperature a = temperature opts \<and>
     arg_topP a = (case topP opts of None \<Rightarrow> Num 0.8
                   | Some v \<Rightarrow> if truthy v then v else Num 0.8) \<and>
     arg_topK a = (case topK opts of None \<Rightarrow> Num 1
                   | Some v \<Rightarrow> if truthy v then v else Num 1)"
  by (auto simp: request_def initialized_def handleStreamingRequest_def Let_def
        streamTextArgs_def split: sum.splits option.splits)

text \<open>C9 as amended at \<open>topP = 0.5\<close> and \<open>topK = 40\<close>.\<close>

theorem sampling_parameters_forwarded_witness:
  "map arg_topP (provider_calls (snd (request sampleEnv ''hello''
      (sampleOptions\<lparr>topP := Some (Num 0.5), topK := Some (Num 40)\<rparr>)))) = [Num 0.5] \<and>
   map arg_topK (provider_calls (snd (request sampleEnv ''hello''
      (sampleOptions\<lparr>topP := Some (Num 0.5), topK := Some (Num 40)\<rparr>)))) = [Num 40]"
proof -
  let ?opts = "sampleOptions\<lparr>topP := Some (Num 0.5), topK := Some (Num 40)\<rparr>"
  have "length (provider_calls (snd (request sampleEnv ''hello'' ?opts))) = 1"
    by (simp add: request_def sampleEnv_def sampleOptions_def sampleInitializeProvider_def
          handleStreamingRequest_def Let_def)
  then obtain a where c: "provider_calls (snd (request sampleEnv ''hello'' ?opts)) = [a]"
    by (cases "provider_calls (snd (request sampleEnv ''hello'' ?opts))") auto
  have "arg_topP a = Num 0.5 \<and> arg_topK a = Num 40"
    using c sampling_parameters_forwarded [of sampleEnv "''hello''" ?opts]
    by (simp add: sampleOptions_def)
  then show ?thesis using c by simp
qed

subsection \<open>C10: content sent inside the loop\<close>

text \<open>
  C10: with a trim configuration, every content event that the sink has received when
  the loop is left is one completed line: text without a line break, followed by one
  line break. Text that does not end in a line break can only be sent by the flush
  after the loop.
\<close>

theorem content_inside_loop_is_one_line:
  "\<forall>t \<in> set (contents (sink (forAwait js clk (Some (p, s)) 0 initial chunks))).
     completed_line t"
proof -
  have "lines_ok (initial :: 'a state)" by (simp add: lines_ok_def initial_def)
  then have "lines_ok (forAwait js clk (Some (p, s)) 0 initial chunks)"
    by (rule lines_ok_forAwait)
  then show ?thesis by (simp add: lines_ok_def)
qed

text \<open>C10 at a stream of three text deltas and a tool call.\<close>

theorem content_inside_loop_is_one_line_witness:
  "contents (sink (forAwait sampleStringify sampleClock (Some (''P:'', '':E'')) 0 initial
      [TextDelta ''P:a\<newline>b\<newline>c'', TextDelta ''\<newline>d\<newline>e'',
       ToolCallStreamingStart ''c1'' ''search'', TextDelta ''\<newline>f'']))
     = [''a\<newline>'', ''b\<newline>''] \<and>
   completed_line ''a\<newline>'' \<and> completed_line ''b\<newline>''"
proof -
  have c: "contents (sink (forAwait sampleStringify sampleClock (Some (''P:'', '':E'')) 0 initial
      [TextDelta ''P:a\<newline>b\<newline>c'', TextDelta ''\<newline>d\<newline>e'',
       ToolCallStreamingStart ''c1'' ''search'', TextDelta ''\<newline>f''])) =
       [''a\<newline>'', ''b\<newline>'']"
    by (simp add: initial_def emitData_def trimDelta_def sendLines_eq stripPrefix_def
          js_includes_def splitLines_def lineEvents_def)
  have "\<forall>t \<in> set [''a\<newline>'', ''b\<newline>'']. completed_line t"
    using content_inside_loop_is_one_line [of sampleStringify sampleClock "''P:''" "'':E''"
      "[TextDelta ''P:a\<newline>b\<newline>c'', TextDelta ''\<newline>d\<newline>e'',
        ToolCallStreamingStart ''c1'' ''search'', TextDelta ''\<newline>f'']"]
    by (simp only: c)
  then show ?thesis using c by simp
qed

end
